theory Spec2Isabelle
  imports Main "HOL-Library.Word"
begin

section \<open>Strings of the source language\<close>

text \<open>
  A string of the source is a sequence of 16-bit code units. \<open>trim\<close> is the built-in
  \<open>String.prototype.trim\<close>: it removes the leading and trailing white space and line
  terminators (TAB, LF, VT, FF, CR, SPACE, NBSP, U+1680, U+2000 to U+200A, U+2028, U+2029,
  U+202F, U+205F, U+3000, U+FEFF). A string is falsy exactly when it is empty.
\<close>

type_synonym js_string = "16 word list"

definition isWhiteSpace :: "16 word \<Rightarrow> bool" where
  "isWhiteSpace c =
     (c \<in> {0x9, 0xA, 0xB, 0xC, 0xD, 0x20, 0xA0, 0x1680, 0x2028, 0x2029, 0x202F, 0x205F,
            0x3000, 0xFEFF}
      \<or> (0x2000 \<le> c \<and> c \<le> 0x200A))"

definition trim :: "js_string \<Rightarrow> js_string" where
  "trim s = rev (dropWhile isWhiteSpace (rev (dropWhile isWhiteSpace s)))"

section \<open>Data model of \<open>src/app/page.tsx\<close>\<close>

text \<open>
  The interfaces \<open>User\<close> and \<open>CapturedData\<close>. The field names carry a prefix, since
  \<open>id\<close> and \<open>image\<close> are constants of HOL and \<open>name\<close> and \<open>template\<close> occur in both
  interfaces and in the component state. Numbers are integers: \<open>Date.now()\<close>, the error
  codes, the quality figures and the matching scores of the device service all are.
\<close>

record User =
  user_id :: int
  user_name :: js_string
  user_template :: js_string
  user_enrollDate :: js_string

record CapturedData =
  cap_template :: js_string
  cap_image :: js_string
  cap_quality :: int
  cap_nfiq :: int

text \<open>
  The object pushed to the \<open>verificationLogs\<close> array. The entry of a successful
  verification has a \<open>userName\<close>, the entry of a failed one has none.
\<close>

record verificationLog =
  timestamp :: js_string
  userName :: "js_string option"
  score :: int
  success :: bool

text \<open>
  The status line set by \<open>setMessage\<close>. Each constructor stands for one template string
  of the source and carries the values interpolated into it.
\<close>

datatype message =
    NoMessage
  | Capturing
  | Captured int int
  | DeviceError int
  | ConnectionError js_string
  | NameRequired
  | EnrolledSaved js_string
  | EnrolledNotSaved js_string
  | NoUsers
  | Verifying
  | MatchingError js_string
  | VerifySuccess js_string int
  | VerifyNoMatch int
  | Deleted
  | DeletedNotSaved
  | Exported
  | Imported nat
  | FormatInvalid
  | ImportFailed
  | SaveFailed

text \<open>
  \<open>localStorage\<close>, with its three keys. An item is absent, holds a text that
  \<open>JSON.parse\<close> rejects or that is no array (\<open>Corrupt\<close>), or holds the value that was
  written with \<open>JSON.stringify\<close>. \<open>setItem\<close> may throw (the quota is exceeded): whether
  a write to a key succeeds is an input of each operation.
\<close>

datatype 'a item = Absent | Corrupt | Item 'a

datatype storage_key = FingerprintUsers | LastCaptured | VerificationLogs

record localStorage =
  ls_fingerprintUsers :: "User list item"
  ls_lastCaptured :: "CapturedData item"
  ls_verificationLogs :: "verificationLog list item"

text \<open>
  The React state of the component that the operations read and write, together with
  the content of \<open>localStorage\<close>.
\<close>

datatype storage_status = Idle | Saving | Loading | Error

record state =
  users :: "User list"
  name :: js_string
  message :: message
  isCapturing :: bool
  lastCaptured :: "CapturedData option"
  storageStatus :: storage_status
  storage :: localStorage

text \<open>
  The answers of the outside world to one operation. \<open>CaptureThrows\<close> and
  \<open>MatchThrows\<close> stand for a rejected \<open>fetch\<close>, a body that is no JSON and (for the
  capture endpoint only) a status that is not ok; they carry \<open>err.message\<close>. The replies
  follow the contract of the device service: \<open>ErrorCode\<close>, \<open>TemplateBase64\<close>,
  \<open>BMPBase64\<close>, \<open>ImageQuality\<close>, \<open>NFIQ\<close> for a capture and \<open>ErrorCode\<close>,
  \<open>MatchingScore\<close> for a comparison. \<open>matchScore k\<close> is the answer to the \<open>k\<close>-th
  comparison request of a scan, counted from 0.
\<close>

datatype capture_reply =
    CaptureThrows js_string
  | CaptureReply int js_string js_string int int

datatype match_reply =
    MatchThrows js_string
  | MatchReply int int

record env =
  fpCapture :: capture_reply
  matchScore :: "nat \<Rightarrow> match_reply"
  setItem_ok :: "storage_key \<Rightarrow> bool"
  dateNow :: int
  localeString :: js_string
  isoString :: js_string

section \<open>Saving the gallery\<close>

text \<open>
  \<open>saveUsersToStorage\<close>, and the effect that runs it after every change of \<open>users\<close>
  (so after each enrollment, deletion and import).
\<close>

definition saveUsersToStorage :: "env \<Rightarrow> state \<Rightarrow> state" where
  "saveUsersToStorage e s =
     (if setItem_ok e FingerprintUsers
      then s\<lparr>storage := (storage s)\<lparr>ls_fingerprintUsers := Item (users s)\<rparr>,
             storageStatus := Idle\<rparr>
      else s\<lparr>message := SaveFailed, storageStatus := Error\<rparr>)"

definition usersEffect :: "env \<Rightarrow> state \<Rightarrow> state" where
  "usersEffect e s =
     (if users s \<noteq> [] \<or> storageStatus s = Idle then saveUsersToStorage e s else s)"

section \<open>Capture and enrollment\<close>

text \<open>
  \<open>captureFingerprint\<close> returns the template, or \<open>null\<close> (here \<open>None\<close>). A failed write
  of the last capture is only logged to the console.
\<close>

definition captureFingerprint :: "env \<Rightarrow> state \<Rightarrow> state \<times> js_string option" where
  "captureFingerprint e s =
     (case fpCapture e of
        CaptureThrows m \<Rightarrow> (s\<lparr>message := ConnectionError m, isCapturing := False\<rparr>, None)
      | CaptureReply ec tpl bmp q n \<Rightarrow>
          if ec = 0 then
            let capturedData =
                  \<lparr>cap_template = tpl, cap_image = bmp, cap_quality = q, cap_nfiq = n\<rparr>;
                st = (if setItem_ok e LastCaptured
                      then (storage s)\<lparr>ls_lastCaptured := Item capturedData\<rparr>
                      else storage s)
            in (s\<lparr>lastCaptured := Some capturedData, storage := st,
                   message := Captured q n, isCapturing := False\<rparr>, Some tpl)
          else (s\<lparr>message := DeviceError ec, isCapturing := False\<rparr>, None))"

text \<open>
  \<open>if (template)\<close>: \<open>null\<close> and the empty string are falsy, so neither enrolls.
\<close>

definition enrollUser :: "env \<Rightarrow> state \<Rightarrow> state" where
  "enrollUser e s =
     (if trim (name s) = [] then s\<lparr>message := NameRequired\<rparr>
      else
        (case captureFingerprint e s of
           (s1, None) \<Rightarrow> s1
         | (s1, Some template) \<Rightarrow>
             if template = [] then s1
             else
               let newUser = \<lparr>user_id = dateNow e, user_name = trim (name s),
                              user_template = template,
                              user_enrollDate = localeString e\<rparr>;
                   updatedUsers = users s @ [newUser]
               in if setItem_ok e FingerprintUsers
                  then s1\<lparr>users := updatedUsers,
                          storage := (storage s1)\<lparr>ls_fingerprintUsers := Item updatedUsers\<rparr>,
                          message := EnrolledSaved (name s), name := []\<rparr>
                  else s1\<lparr>users := updatedUsers,
                          message := EnrolledNotSaved (name s), name := []\<rparr>))"

definition deleteUser :: "env \<Rightarrow> int \<Rightarrow> state \<Rightarrow> state" where
  "deleteUser e i s =
     (let updatedUsers = filter (\<lambda>u. user_id u \<noteq> i) (users s)
      in if setItem_ok e FingerprintUsers
         then s\<lparr>users := updatedUsers,
                storage := (storage s)\<lparr>ls_fingerprintUsers := Item updatedUsers\<rparr>,
                message := Deleted\<rparr>
         else s\<lparr>users := updatedUsers, message := DeletedNotSaved\<rparr>)"

section \<open>Verification\<close>

text \<open>
  The HTTP exchange of one comparison, \<open>await fetch(...)\<close> followed by
  \<open>await response.json()\<close>: \<open>fetch\<close> rejects, or it resolves to a response with a
  status and a body, which \<open>response.json()\<close> rejects or parses to \<open>ErrorCode\<close> and
  \<open>MatchingScore\<close>. The loop reads the body whatever the status is: it has no test of
  \<open>response.ok\<close>, which \<open>captureFingerprint\<close> has (\<open>throw new Error\<close> on a status
  outside 200 to 299).
\<close>

datatype http_body = BodyNotJson js_string | BodyJson int int

datatype match_response = FetchRejects js_string | HttpResponse int http_body

fun matchReplyOf :: "match_response \<Rightarrow> match_reply" where
  "matchReplyOf (FetchRejects m) = MatchThrows m"
| "matchReplyOf (HttpResponse status (BodyNotJson m)) = MatchThrows m"
| "matchReplyOf (HttpResponse status (BodyJson ec sc)) = MatchReply ec sc"

text \<open>
  The \<open>for\<close> loop of \<open>verifyFingerprint\<close> over the gallery, with the loop variables
  \<open>bestMatch\<close> and \<open>bestScore\<close>. A comparison that throws leaves the loop and the
  function (\<open>Inl\<close>, with the message of the error).
\<close>

fun matchLoop ::
  "(nat \<Rightarrow> match_reply) \<Rightarrow> nat \<Rightarrow> User list \<Rightarrow> User option \<Rightarrow> int
     \<Rightarrow> js_string + (User option \<times> int)" where
  "matchLoop ep k [] bestMatch bestScore = Inr (bestMatch, bestScore)"
| "matchLoop ep k (user # rest) bestMatch bestScore =
     (case ep k of
        MatchThrows m \<Rightarrow> Inl m
      | MatchReply ec sc \<Rightarrow>
          if ec = 0 \<and> sc > bestScore
          then matchLoop ep (Suc k) rest (Some user) sc
          else matchLoop ep (Suc k) rest bestMatch bestScore)"

text \<open>
  \<open>existingLogs.push(verificationLog)\<close> followed by the \<open>splice\<close> that keeps the last 50.
\<close>

definition pushLog :: "verificationLog \<Rightarrow> verificationLog list \<Rightarrow> verificationLog list" where
  "pushLog entry existingLogs =
     (let pushed = existingLogs @ [entry]
      in if length pushed > 50 then drop (length pushed - 50) pushed else pushed)"

text \<open>
  The \<open>try\<close> block that saves a verification log: an absent item reads as \<open>[]\<close>, a
  corrupt item or a failed write throws, which is caught and logged to the console.
\<close>

definition saveVerificationLog :: "env \<Rightarrow> verificationLog \<Rightarrow> localStorage \<Rightarrow> localStorage" where
  "saveVerificationLog e entry st =
     (case ls_verificationLogs st of
        Corrupt \<Rightarrow> st
      | Absent \<Rightarrow>
          if setItem_ok e VerificationLogs
          then st\<lparr>ls_verificationLogs := Item (pushLog entry [])\<rparr> else st
      | Item existingLogs \<Rightarrow>
          if setItem_ok e VerificationLogs
          then st\<lparr>ls_verificationLogs := Item (pushLog entry existingLogs)\<rparr> else st)"

text \<open>
  The two branches after the loop. The success branch is taken when
  \<open>bestScore > 100 && bestMatch\<close> holds (\<open>null\<close> is falsy, an object is truthy).
\<close>

definition verifySuccess :: "env \<Rightarrow> User \<Rightarrow> int \<Rightarrow> state \<Rightarrow> state" where
  "verifySuccess e bestMatch bestScore s1 =
     s1\<lparr>storage := saveVerificationLog e
            \<lparr>timestamp = isoString e, userName = Some (user_name bestMatch),
             score = bestScore, success = True\<rparr> (storage s1),
        message := VerifySuccess (user_name bestMatch) bestScore\<rparr>"

definition verifyFailure :: "env \<Rightarrow> int \<Rightarrow> state \<Rightarrow> state" where
  "verifyFailure e bestScore s1 =
     s1\<lparr>storage := saveVerificationLog e
            \<lparr>timestamp = isoString e, userName = None,
             score = bestScore, success = False\<rparr> (storage s1),
        message := VerifyNoMatch bestScore\<rparr>"

fun verifyOutcome :: "env \<Rightarrow> User option \<Rightarrow> int \<Rightarrow> state \<Rightarrow> state" where
  "verifyOutcome e (Some bestMatch) bestScore s1 =
     (if bestScore > 100 then verifySuccess e bestMatch bestScore s1
      else verifyFailure e bestScore s1)"
| "verifyOutcome e None bestScore s1 = verifyFailure e bestScore s1"

definition verifyFingerprint :: "env \<Rightarrow> state \<Rightarrow> state" where
  "verifyFingerprint e s =
     (if users s = [] then s\<lparr>message := NoUsers\<rparr>
      else
        (case captureFingerprint e s of
           (s1, None) \<Rightarrow> s1
         | (s1, Some template) \<Rightarrow>
             if template = [] then s1
             else
               (case matchLoop (matchScore e) 0 (users s) None 0 of
                  Inl m \<Rightarrow> s1\<lparr>message := MatchingError m\<rparr>
                | Inr (bestMatch, bestScore) \<Rightarrow> verifyOutcome e bestMatch bestScore s1)))"

section \<open>Export and import\<close>

text \<open>
  The object that \<open>exportData\<close> serialises, and what \<open>JSON.parse\<close> gives \<open>importData\<close>:
  \<open>null\<close>, a value without properties (a number, a string, a boolean, an array), or an
  object, of which the code reads \<open>users\<close> and \<open>lastCaptured\<close>. The value of \<open>users\<close>
  is any JSON value or missing (\<open>undefined\<close>); the elements of an array are taken to be
  \<open>User\<close> objects and \<open>lastCaptured\<close> to be \<open>null\<close>, missing or a \<open>CapturedData\<close>
  object, as the types of the source declare them: the code stores both unexamined.
\<close>

record exportDoc =
  doc_users :: "User list"
  doc_lastCaptured :: "CapturedData option"
  doc_exportDate :: js_string

datatype users_value =
    UsersUndefined
  | UsersNull
  | UsersBool bool
  | UsersNum int
  | UsersStr js_string
  | UsersObject
  | UsersArray "User list"

datatype parsed =
    DataNull
  | DataNoProperties
  | DataObject users_value "CapturedData option"

definition exportData :: "env \<Rightarrow> state \<Rightarrow> state \<times> exportDoc" where
  "exportData e s =
     (s\<lparr>message := Exported\<rparr>,
      \<lparr>doc_users = users s, doc_lastCaptured = lastCaptured s, doc_exportDate = isoString e\<rparr>)"

text \<open>
  \<open>JSON.parse (JSON.stringify data)\<close> for the exported object: an array stays an array
  of the same objects, \<open>null\<close> stays \<open>null\<close>. The text in between is not modelled, and
  neither is the \<open>catch\<close> of \<open>exportData\<close>: serialising strings and integers does not
  throw.
\<close>

definition parseStringified :: "exportDoc \<Rightarrow> parsed" where
  "parseStringified d = DataObject (UsersArray (doc_users d)) (doc_lastCaptured d)"

text \<open>Truthiness of \<open>data.users\<close> and \<open>Array.isArray\<close>.\<close>

fun usersTruthy :: "users_value \<Rightarrow> bool" where
  "usersTruthy UsersUndefined = False"
| "usersTruthy UsersNull = False"
| "usersTruthy (UsersBool b) = b"
| "usersTruthy (UsersNum n) = (n \<noteq> 0)"
| "usersTruthy (UsersStr t) = (t \<noteq> [])"
| "usersTruthy UsersObject = True"
| "usersTruthy (UsersArray us) = True"

fun isArray :: "users_value \<Rightarrow> bool" where
  "isArray (UsersArray us) = True"
| "isArray v = False"

fun arrayOf :: "users_value \<Rightarrow> User list" where
  "arrayOf (UsersArray us) = us"
| "arrayOf v = []"

text \<open>
  \<open>importData\<close>, from the text of the chosen file on: \<open>None\<close> is a text that
  \<open>JSON.parse\<close> rejects. Reading \<open>users\<close> of \<open>null\<close> throws, as a failed write does; the
  \<open>catch\<close> sets the message and keeps the state updates made before.
\<close>

definition importData :: "env \<Rightarrow> parsed option \<Rightarrow> state \<Rightarrow> state" where
  "importData e file s =
     (case file of
        None \<Rightarrow> s\<lparr>message := ImportFailed\<rparr>
      | Some DataNull \<Rightarrow> s\<lparr>message := ImportFailed\<rparr>
      | Some DataNoProperties \<Rightarrow> s\<lparr>message := FormatInvalid\<rparr>
      | Some (DataObject dataUsers dataLastCaptured) \<Rightarrow>
          if usersTruthy dataUsers \<and> isArray dataUsers then
            let s1 = s\<lparr>users := arrayOf dataUsers\<rparr> in
            if \<not> setItem_ok e FingerprintUsers then s1\<lparr>message := ImportFailed\<rparr>
            else
              let s2 = s1\<lparr>storage :=
                         (storage s1)\<lparr>ls_fingerprintUsers := Item (arrayOf dataUsers)\<rparr>\<rparr> in
              (case dataLastCaptured of
                 None \<Rightarrow> s2\<lparr>message := Imported (length (arrayOf dataUsers))\<rparr>
               | Some c \<Rightarrow>
                   let s3 = s2\<lparr>lastCaptured := Some c\<rparr> in
                   if \<not> setItem_ok e LastCaptured then s3\<lparr>message := ImportFailed\<rparr>
                   else s3\<lparr>storage := (storage s3)\<lparr>ls_lastCaptured := Item c\<rparr>,
                           message := Imported (length (arrayOf dataUsers))\<rparr>)
          else s\<lparr>message := FormatInvalid\<rparr>)"

section \<open>Notions used in the statements\<close>

text \<open>
  The score a comparison contributes to the scan: its \<open>MatchingScore\<close> when the
  \<open>ErrorCode\<close> is 0, and 0 otherwise. \<open>scoresSeen ep n\<close> lists the scores of the first
  \<open>n\<close> comparisons, in gallery order.
\<close>

fun contributed :: "match_reply \<Rightarrow> int" where
  "contributed (MatchReply ec sc) = (if ec = 0 then sc else 0)"
| "contributed (MatchThrows m) = 0"

fun throws :: "match_reply \<Rightarrow> bool" where
  "throws (MatchThrows m) = True"
| "throws (MatchReply ec sc) = False"

definition scoresSeen :: "(nat \<Rightarrow> match_reply) \<Rightarrow> nat \<Rightarrow> int list" where
  "scoresSeen ep n = map (\<lambda>k. contributed (ep k)) [0..<n]"

text \<open>A reply with a non-zero \<open>ErrorCode\<close> replaced by a valid comparison of score 0.\<close>

fun asScoreZero :: "match_reply \<Rightarrow> match_reply" where
  "asScoreZero (MatchReply ec sc) = (if ec = 0 then MatchReply ec sc else MatchReply 0 0)"
| "asScoreZero (MatchThrows m) = MatchThrows m"

text \<open>The verification was accepted: the status line is the one of the success branch.\<close>

fun isVerifySuccess :: "message \<Rightarrow> bool" where
  "isVerifySuccess (VerifySuccess n sc) = True"
| "isVerifySuccess m = False"

text \<open>The document has a \<open>users\<close> field that is a sequence.\<close>

fun hasUsersArray :: "parsed \<Rightarrow> bool" where
  "hasUsersArray (DataObject v c) = isArray v"
| "hasUsersArray d = False"

text \<open>The stored audit log as a list: an item that is absent or unreadable has no entries.\<close>

fun logsOf :: "verificationLog list item \<Rightarrow> verificationLog list" where
  "logsOf (Item logs) = logs"
| "logsOf i = []"

section \<open>Example inputs\<close>

definition ex_alice :: User where
  "ex_alice = \<lparr>user_id = 1000, user_name = [0x41], user_template = [0x54, 0x31],
                user_enrollDate = [0x31]\<rparr>"

definition ex_bob :: User where
  "ex_bob = \<lparr>user_id = 2000, user_name = [0x42], user_template = [0x54, 0x32],
              user_enrollDate = [0x32]\<rparr>"

definition ex_carol :: User where
  "ex_carol = \<lparr>user_id = 3000, user_name = [0x43], user_template = [0x54, 0x33],
                user_enrollDate = [0x33]\<rparr>"

definition ex_storage :: localStorage where
  "ex_storage = \<lparr>ls_fingerprintUsers = Absent, ls_lastCaptured = Absent,
                  ls_verificationLogs = Absent\<rparr>"

definition ex_state :: state where
  "ex_state = \<lparr>users = [ex_alice, ex_bob, ex_carol], name = [0x20, 0x44, 0x20],
                message = NoMessage, isCapturing = False, lastCaptured = None,
                storageStatus = Idle, storage = ex_storage\<rparr>"

text \<open>The scores 40, 150, 90 of the specification's example, three equal scores, and others.\<close>

definition ex_scores :: "nat \<Rightarrow> match_reply" where
  "ex_scores k = (if k = 0 then MatchReply 0 40 else if k = 1 then MatchReply 0 150
                  else MatchReply 0 90)"

definition ex_low :: "nat \<Rightarrow> match_reply" where
  "ex_low k = (if k = 0 then MatchReply 0 30 else if k = 1 then MatchReply 0 50
               else MatchReply 0 100)"

definition ex_tie :: "nat \<Rightarrow> match_reply" where
  "ex_tie k = MatchReply 0 120"

definition ex_zero :: "nat \<Rightarrow> match_reply" where
  "ex_zero k = MatchReply 0 0"

definition ex_broken :: "nat \<Rightarrow> match_reply" where
  "ex_broken k = (if k = 0 then MatchReply 0 150 else if k = 1 then MatchThrows [0x45]
                  else MatchReply 0 90)"

text \<open>
  Three answers of the comparison endpoint: the second has the status 500 and a body with
  error code 0 and score 150, the third a non-zero error code.
\<close>

definition ex_responses :: "nat \<Rightarrow> match_response" where
  "ex_responses k = (if k = 0 then HttpResponse 200 (BodyJson 0 40)
                     else if k = 1 then HttpResponse 500 (BodyJson 0 150)
                     else HttpResponse 200 (BodyJson 3 199))"

definition ex_http_replies :: "nat \<Rightarrow> match_reply" where
  "ex_http_replies k = matchReplyOf (ex_responses k)"

definition ex_writable :: "storage_key \<Rightarrow> bool" where
  "ex_writable k = True"

definition ex_full :: "storage_key \<Rightarrow> bool" where
  "ex_full k = False"

definition ex_env :: env where
  "ex_env = \<lparr>fpCapture = CaptureReply 0 [0x50] [0x49] 80 1, matchScore = ex_scores,
              setItem_ok = ex_writable, dateNow = 4000, localeString = [0x4C],
              isoString = [0x5A]\<rparr>"

definition ex_entry :: "nat \<Rightarrow> verificationLog" where
  "ex_entry k = \<lparr>timestamp = [], userName = None, score = int k, success = False\<rparr>"

definition ex_logs :: "verificationLog list" where
  "ex_logs = map ex_entry [0..<50]"

section \<open>The loop of the scan\<close>

lemma matchLoop_first_max:
  "0 \<le> bs \<Longrightarrow> matchLoop ep k us bm bs = Inr (bm', bs') \<Longrightarrow>
   (if \<exists>i<length us. bs < contributed (ep (k + i))
    then \<exists>i<length us. bm' = Some (us ! i) \<and> bs' = contributed (ep (k + i))
           \<and> (\<forall>j<i. contributed (ep (k + j)) < bs')
           \<and> (\<forall>j<length us. contributed (ep (k + j)) \<le> bs')
    else bm' = bm \<and> bs' = bs)"
proof (induction us arbitrary: k bm bs)
  case Nil
  then show ?case by simp
next
  case (Cons u rest)
  from Cons.prems obtain ec sc where r: "ep k = MatchReply ec sc"
    by (cases "ep k") auto
  show ?case
  proof (cases "ec = 0 \<and> sc > bs")
    case True
    then have rec: "matchLoop ep (Suc k) rest (Some u) sc = Inr (bm', bs')"
      using Cons.prems r by simp
    have sc0: "0 \<le> sc" using True Cons.prems(1) by simp
    have ck: "contributed (ep k) = sc" using r True by simp
    show ?thesis
    proof (cases "\<exists>i<length rest. sc < contributed (ep (Suc k + i))")
      case A: True
      with Cons.IH[OF sc0 rec] obtain i where i: "i < length rest" "bm' = Some (rest ! i)"
        "bs' = contributed (ep (Suc k + i))"
        "\<forall>j<i. contributed (ep (Suc k + j)) < bs'"
        "\<forall>j<length rest. contributed (ep (Suc k + j)) \<le> bs'"
        by auto
      from A i(5) have lt: "sc < bs'" by force
      have "Suc i < length (u # rest) \<and> bm' = Some ((u # rest) ! Suc i)
          \<and> bs' = contributed (ep (k + Suc i))
          \<and> (\<forall>j<Suc i. contributed (ep (k + j)) < bs')
          \<and> (\<forall>j<length (u # rest). contributed (ep (k + j)) \<le> bs')"
        using i lt ck by (simp add: All_less_Suc2)
      moreover have "\<exists>i<length (u # rest). bs < contributed (ep (k + i))"
        using True ck by (intro exI[of _ 0]) simp
      ultimately show ?thesis by (simp only: if_True) blast
    next
      case B: False
      with Cons.IH[OF sc0 rec] have e: "bm' = Some u" "bs' = sc" by auto
      from B have B': "\<forall>j<length rest. contributed (ep (Suc k + j)) \<le> sc"
        using not_less by blast
      have "0 < length (u # rest) \<and> bm' = Some ((u # rest) ! 0)
          \<and> bs' = contributed (ep (k + 0))
          \<and> (\<forall>j<0. contributed (ep (k + j)) < bs')
          \<and> (\<forall>j<length (u # rest). contributed (ep (k + j)) \<le> bs')"
        using e B' ck by (simp add: All_less_Suc2)
      moreover have "\<exists>i<length (u # rest). bs < contributed (ep (k + i))"
        using True ck by (intro exI[of _ 0]) simp
      ultimately show ?thesis by (simp only: if_True) blast
    qed
  next
    case False
    then have rec: "matchLoop ep (Suc k) rest bm bs = Inr (bm', bs')"
      using Cons.prems r by auto
    have ck: "contributed (ep k) \<le> bs" using r False Cons.prems(1) by auto
    show ?thesis
    proof (cases "\<exists>i<length rest. bs < contributed (ep (Suc k + i))")
      case A: True
      with Cons.IH[OF Cons.prems(1) rec] obtain i where i: "i < length rest"
        "bm' = Some (rest ! i)"
        "bs' = contributed (ep (Suc k + i))"
        "\<forall>j<i. contributed (ep (Suc k + j)) < bs'"
        "\<forall>j<length rest. contributed (ep (Suc k + j)) \<le> bs'"
        by auto
      from A i(5) have lt: "bs < bs'" by force
      have "Suc i < length (u # rest) \<and> bm' = Some ((u # rest) ! Suc i)
          \<and> bs' = contributed (ep (k + Suc i))
          \<and> (\<forall>j<Suc i. contributed (ep (k + j)) < bs')
          \<and> (\<forall>j<length (u # rest). contributed (ep (k + j)) \<le> bs')"
        using i lt ck by (simp add: All_less_Suc2)
      moreover have "\<exists>i<length (u # rest). bs < contributed (ep (k + i))"
        using A by (simp add: Ex_less_Suc2)
      ultimately show ?thesis by (simp only: if_True) blast
    next
      case B: False
      with Cons.IH[OF Cons.prems(1) rec] have e: "bm' = bm" "bs' = bs" by auto
      have "\<not> (\<exists>i<length (u # rest). bs < contributed (ep (k + i)))"
        using B ck by (simp add: Ex_less_Suc2)
      then show ?thesis using e by (simp only: if_False simp_thms)
    qed
  qed
qed

lemma matchLoop_throws:
  "(\<exists>m. matchLoop ep k us bm bs = Inl m) = (\<exists>i<length us. throws (ep (k + i)))"
proof (induction us arbitrary: k bm bs)
  case Nil
  show ?case by simp
next
  case (Cons u rest)
  show ?case
  proof (cases "ep k")
    case (MatchThrows m)
    then have "throws (ep (k + 0))" by simp
    then have "\<exists>i<length (u # rest). throws (ep (k + i))" by (intro exI[of _ 0]) simp
    then show ?thesis using MatchThrows by simp
  next
    case (MatchReply ec sc)
    then show ?thesis using Cons.IH[of "Suc k"] by (simp add: Ex_less_Suc2)
  qed
qed

lemma matchLoop_identity:
  "bs > 0 \<longrightarrow> (\<exists>u\<in>set us0. bm = Some u) \<Longrightarrow> set us \<subseteq> set us0 \<Longrightarrow>
   matchLoop ep k us bm bs = Inr (bm', bs') \<Longrightarrow>
   bs' > 0 \<longrightarrow> (\<exists>u\<in>set us0. bm' = Some u)"
proof (induction us arbitrary: k bm bs)
  case Nil
  then show ?case by simp
next
  case (Cons u rest)
  from Cons.prems(3) obtain ec sc where r: "ep k = MatchReply ec sc"
    by (cases "ep k") auto
  have sub: "set rest \<subseteq> set us0" and u: "u \<in> set us0"
    using Cons.prems(2) by auto
  show ?case
  proof (cases "ec = 0 \<and> sc > bs")
    case True
    then have rec: "matchLoop ep (Suc k) rest (Some u) sc = Inr (bm', bs')"
      using Cons.prems(3) r by simp
    have "sc > 0 \<longrightarrow> (\<exists>v\<in>set us0. Some u = Some v)" using u by simp
    from Cons.IH[OF this sub rec] show ?thesis .
  next
    case False
    then have rec: "matchLoop ep (Suc k) rest bm bs = Inr (bm', bs')"
      using Cons.prems(3) r by auto
    from Cons.IH[OF Cons.prems(1) sub rec] show ?thesis .
  qed
qed

lemma scoresSeen_nth: "i < n \<Longrightarrow> scoresSeen ep n ! i = contributed (ep i)"
  by (simp add: scoresSeen_def)

lemma scoresSeen_set: "set (scoresSeen ep n) = (\<lambda>k. contributed (ep k)) ` {0..<n}"
  by (simp add: scoresSeen_def)

lemma matchLoop_completes:
  assumes "\<forall>i<length us. \<not> throws (ep i)"
  shows "\<exists>bm bs. matchLoop ep 0 us None 0 = Inr (bm, bs)"
proof (cases "matchLoop ep 0 us None 0")
  case (Inl m)
  then have "\<exists>i<length us. throws (ep i)"
    using matchLoop_throws[of ep 0 us None 0] by auto
  with assms show ?thesis by blast
next
  case (Inr r)
  then show ?thesis by (cases r) simp
qed

lemma matchLoop_start:
  assumes "matchLoop ep 0 us None 0 = Inr (bm, bs)" and "us \<noteq> []"
  shows "if 0 < Max (set (scoresSeen ep (length us)))
         then \<exists>i<length us. bm = Some (us ! i) \<and> bs = scoresSeen ep (length us) ! i
                \<and> bs = Max (set (scoresSeen ep (length us)))
                \<and> (\<forall>j<i. scoresSeen ep (length us) ! j < bs)
         else bm = None \<and> bs = 0"
proof -
  let ?cs = "scoresSeen ep (length us)"
  have ne: "set ?cs \<noteq> {}" using assms(2) by (simp add: scoresSeen_def)
  have fin: "finite (set ?cs)" by simp
  note fm = matchLoop_first_max[of 0 ep 0 us None bm bs, simplified, OF assms(1)]
  show ?thesis
  proof (cases "\<exists>i<length us. 0 < contributed (ep i)")
    case True
    with fm obtain i where i: "i < length us" "bm = Some (us ! i)" "bs = contributed (ep i)"
      "\<forall>j<i. contributed (ep j) < bs" "\<forall>j<length us. contributed (ep j) \<le> bs"
      by auto
    have mem: "bs \<in> set ?cs" using i(1,3) by (auto simp: scoresSeen_set)
    have ub: "\<And>c. c \<in> set ?cs \<Longrightarrow> c \<le> bs" using i(5) by (auto simp: scoresSeen_set)
    have mx: "Max (set ?cs) = bs" using mem ub by (intro Max_eqI) auto
    from True i(5) have pos: "0 < bs" by force
    have "\<forall>j<i. ?cs ! j < bs" using i(1,4) by (simp add: scoresSeen_nth)
    then have "i < length us \<and> bm = Some (us ! i) \<and> bs = ?cs ! i \<and> bs = Max (set ?cs)
        \<and> (\<forall>j<i. ?cs ! j < bs)"
      using i mx by (simp add: scoresSeen_nth)
    then show ?thesis using pos mx by auto
  next
    case False
    with fm have r: "bm = None" "bs = 0" by auto
    from False have "\<forall>i<length us. contributed (ep i) \<le> 0"
      using not_less by blast
    then have "\<And>c. c \<in> set ?cs \<Longrightarrow> c \<le> 0"
      by (auto simp: scoresSeen_set)
    then have "Max (set ?cs) \<le> 0" using ne fin by (simp add: Max_le_iff)
    then show ?thesis using r by simp
  qed
qed

section \<open>Verification as a whole\<close>

lemma captureFingerprint_ok:
  "fpCapture e = CaptureReply 0 tpl bmp q n \<Longrightarrow> snd (captureFingerprint e s) = Some tpl"
  by (simp add: captureFingerprint_def Let_def)

lemma captureFingerprint_frame:
  "users (fst (captureFingerprint e s)) = users s
   \<and> name (fst (captureFingerprint e s)) = name s
   \<and> ls_verificationLogs (storage (fst (captureFingerprint e s))) = ls_verificationLogs (storage s)
   \<and> ls_fingerprintUsers (storage (fst (captureFingerprint e s))) = ls_fingerprintUsers (storage s)"
  by (simp add: captureFingerprint_def Let_def split: capture_reply.splits)

lemma verifyFingerprint_scan:
  assumes "users s \<noteq> []" and "fpCapture e = CaptureReply 0 tpl bmp q n" and "tpl \<noteq> []"
  shows "verifyFingerprint e s =
     (case matchLoop (matchScore e) 0 (users s) None 0 of
        Inl m \<Rightarrow> (fst (captureFingerprint e s))\<lparr>message := MatchingError m\<rparr>
      | Inr (bm, bs) \<Rightarrow> verifyOutcome e bm bs (fst (captureFingerprint e s)))"
proof -
  obtain s1 where c: "captureFingerprint e s = (s1, Some tpl)"
    using captureFingerprint_ok[OF assms(2), of s] by (cases "captureFingerprint e s") simp
  then show ?thesis using assms(1,3) by (simp add: verifyFingerprint_def split: sum.splits)
qed

lemma verifyOutcome_message:
  "isVerifySuccess (message (verifyOutcome e bm bs s1)) = (100 < bs \<and> bm \<noteq> None)"
  by (cases bm) (simp_all add: verifySuccess_def verifyFailure_def)

section \<open>Verification: the claims\<close>

text \<open>
  C9. For every completed scan, started with score 0 and no identity: a positive best score
  comes with a recorded identity of the gallery, and a best score above 100 takes the
  success branch with that identity.
\<close>

theorem accepted_scan_has_identity:
  assumes "matchLoop ep 0 us None 0 = Inr (bm, bs)"
  shows "(0 < bs \<longrightarrow> (\<exists>u\<in>set us. bm = Some u))
       \<and> (100 < bs \<longrightarrow>
            (\<exists>u\<in>set us. bm = Some u \<and> verifyOutcome e bm bs s1 = verifySuccess e u bs s1))"
proof -
  have inv: "0 < bs \<longrightarrow> (\<exists>u\<in>set us. bm = Some u)"
    using matchLoop_identity[of 0 us None us ep 0 bm bs] assms by simp
  have "100 < bs \<longrightarrow>
          (\<exists>u\<in>set us. bm = Some u \<and> verifyOutcome e bm bs s1 = verifySuccess e u bs s1)"
  proof
    assume big: "100 < bs"
    with inv obtain u where u: "u \<in> set us" "bm = Some u" by auto
    then have "verifyOutcome e bm bs s1 = verifySuccess e u bs s1" using big by simp
    with u show "\<exists>u\<in>set us. bm = Some u \<and> verifyOutcome e bm bs s1 = verifySuccess e u bs s1"
      by blast
  qed
  with inv show ?thesis by simp
qed

theorem accepted_scan_has_identity_witness:
  "matchLoop ex_scores 0 [ex_alice, ex_bob, ex_carol] None 0 = Inr (Some ex_bob, 150)
   \<and> ex_bob \<in> set [ex_alice, ex_bob, ex_carol]
   \<and> verifyOutcome ex_env (Some ex_bob) 150 ex_state = verifySuccess ex_env ex_bob 150 ex_state"
proof -
  have h: "matchLoop ex_scores 0 [ex_alice, ex_bob, ex_carol] None 0 = Inr (Some ex_bob, 150)"
    by (simp add: ex_scores_def)
  from accepted_scan_has_identity[OF h, of ex_env ex_state]
  have "verifyOutcome ex_env (Some ex_bob) 150 ex_state = verifySuccess ex_env ex_bob 150 ex_state"
    by simp
  with h show ?thesis by simp
qed

text \<open>
  C2. A verification over a non-empty gallery whose capture gives a template and whose
  comparisons all answer is accepted if and only if the maximum of the scores seen exceeds
  100; when every score is at most 100 it is not accepted.
\<close>

theorem verify_accepted_iff_max_exceeds_100:
  assumes "users s \<noteq> []" and "fpCapture e = CaptureReply 0 tpl bmp q n" and "tpl \<noteq> []"
    and "\<forall>i<length (users s). \<not> throws (matchScore e i)"
  shows "isVerifySuccess (message (verifyFingerprint e s))
           = (100 < Max (set (scoresSeen (matchScore e) (length (users s)))))
       \<and> ((\<forall>c\<in>set (scoresSeen (matchScore e) (length (users s))). c \<le> 100)
            \<longrightarrow> \<not> isVerifySuccess (message (verifyFingerprint e s)))"
proof -
  let ?cs = "scoresSeen (matchScore e) (length (users s))"
  from matchLoop_completes[OF assms(4)] obtain bm bs
    where r: "matchLoop (matchScore e) 0 (users s) None 0 = Inr (bm, bs)" by blast
  have acc: "isVerifySuccess (message (verifyFingerprint e s)) = (100 < bs \<and> bm \<noteq> None)"
    using verifyFingerprint_scan[OF assms(1-3)] r by (simp add: verifyOutcome_message)
  have iff: "(100 < bs \<and> bm \<noteq> None) = (100 < Max (set ?cs))"
    using matchLoop_start[OF r assms(1)] by (auto split: if_splits)
  have ne: "set ?cs \<noteq> {}" using assms(1) by (simp add: scoresSeen_def)
  have "(\<forall>c\<in>set ?cs. c \<le> 100) \<longrightarrow> \<not> 100 < Max (set ?cs)"
    using ne by (simp add: not_less)
  with acc iff show ?thesis by simp
qed

theorem verify_accepted_iff_max_exceeds_100_witness:
  "users ex_state \<noteq> [] \<and> fpCapture ex_env = CaptureReply 0 [0x50] [0x49] 80 1
   \<and> scoresSeen ex_scores 3 = [40, 150, 90]
   \<and> isVerifySuccess (message (verifyFingerprint ex_env ex_state))
   \<and> scoresSeen ex_low 3 = [30, 50, 100]
   \<and> \<not> isVerifySuccess (message (verifyFingerprint (ex_env\<lparr>matchScore := ex_low\<rparr>) ex_state))"
proof -
  have h1: "users ex_state \<noteq> []" by (simp add: ex_state_def)
  have h2: "fpCapture ex_env = CaptureReply 0 [0x50] [0x49] 80 1" by (simp add: ex_env_def)
  have h2': "fpCapture (ex_env\<lparr>matchScore := ex_low\<rparr>) = CaptureReply 0 [0x50] [0x49] 80 1"
    by (simp add: ex_env_def)
  have h3: "[0x50 :: 16 word] \<noteq> []" by simp
  have h4: "\<forall>i<length (users ex_state). \<not> throws (matchScore ex_env i)"
    by (simp add: ex_env_def ex_scores_def)
  have h4': "\<forall>i<length (users ex_state). \<not> throws (matchScore (ex_env\<lparr>matchScore := ex_low\<rparr>) i)"
    by (simp add: ex_low_def)
  have c1: "scoresSeen ex_scores 3 = [40, 150, 90]"
    by (simp add: scoresSeen_def ex_scores_def upt_rec)
  have c2: "scoresSeen ex_low 3 = [30, 50, 100]"
    by (simp add: scoresSeen_def ex_low_def upt_rec)
  have len: "length (users ex_state) = 3" by (simp add: ex_state_def)
  have m: "matchScore ex_env = ex_scores" by (simp add: ex_env_def)
  have a: "isVerifySuccess (message (verifyFingerprint ex_env ex_state))"
    using verify_accepted_iff_max_exceeds_100[OF h1 h2 h3 h4] c1
    by (simp add: len m)
  have b: "\<not> isVerifySuccess (message (verifyFingerprint (ex_env\<lparr>matchScore := ex_low\<rparr>) ex_state))"
    using verify_accepted_iff_max_exceeds_100[OF h1 h2' h3 h4'] c2
    by (simp add: len)
  from h1 h2 c1 a c2 b show ?thesis by simp
qed

text \<open>
  C3, as amended. For a non-empty gallery whose comparisons all answer: when the maximum
  of the scores seen is positive, the scan returns that maximum together with the first
  identity, in gallery order, that reached it (every earlier score is strictly smaller, so
  a later equal score does not replace it); when no score is positive, it returns no
  identity and the score 0.
\<close>

theorem scan_returns_first_maximum:
  assumes "us \<noteq> []" and "\<forall>i<length us. \<not> throws (ep i)"
  shows "if 0 < Max (set (scoresSeen ep (length us)))
         then \<exists>i<length us.
                matchLoop ep 0 us None 0 = Inr (Some (us ! i), scoresSeen ep (length us) ! i)
                \<and> scoresSeen ep (length us) ! i = Max (set (scoresSeen ep (length us)))
                \<and> (\<forall>j<i. scoresSeen ep (length us) ! j < scoresSeen ep (length us) ! i)
         else matchLoop ep 0 us None 0 = Inr (None, 0)"
proof -
  from matchLoop_completes[OF assms(2)] obtain bm bs
    where r: "matchLoop ep 0 us None 0 = Inr (bm, bs)" by blast
  show ?thesis
  proof (cases "0 < Max (set (scoresSeen ep (length us)))")
    case True
    from matchLoop_start[OF r assms(1), unfolded if_P[OF True]]
    obtain i where "i < length us" "bm = Some (us ! i)"
      "bs = scoresSeen ep (length us) ! i" "bs = Max (set (scoresSeen ep (length us)))"
      "\<forall>j<i. scoresSeen ep (length us) ! j < bs"
      by blast
    then have "i < length us
       \<and> matchLoop ep 0 us None 0 = Inr (Some (us ! i), scoresSeen ep (length us) ! i)
       \<and> scoresSeen ep (length us) ! i = Max (set (scoresSeen ep (length us)))
       \<and> (\<forall>j<i. scoresSeen ep (length us) ! j < scoresSeen ep (length us) ! i)"
      using r by simp
    then have ex: "\<exists>i<length us.
         matchLoop ep 0 us None 0 = Inr (Some (us ! i), scoresSeen ep (length us) ! i)
       \<and> scoresSeen ep (length us) ! i = Max (set (scoresSeen ep (length us)))
       \<and> (\<forall>j<i. scoresSeen ep (length us) ! j < scoresSeen ep (length us) ! i)"
      by blast
    show ?thesis unfolding if_P[OF True] by (rule ex)
  next
    case False
    with matchLoop_start[OF r assms(1)] have "bm = None \<and> bs = 0" by simp
    with r have n: "matchLoop ep 0 us None 0 = Inr (None, 0)" by simp
    show ?thesis unfolding if_not_P[OF False] by (rule n)
  qed
qed

theorem scan_returns_first_maximum_witness:
  "[ex_alice, ex_bob, ex_carol] \<noteq> [] \<and> \<not> throws (ex_tie 0) \<and> \<not> throws (ex_tie 1)
   \<and> \<not> throws (ex_tie 2) \<and> scoresSeen ex_tie 3 = [120, 120, 120]
   \<and> matchLoop ex_tie 0 [ex_alice, ex_bob, ex_carol] None 0 = Inr (Some ex_alice, 120)"
proof -
  let ?us = "[ex_alice, ex_bob, ex_carol]"
  let ?cs = "scoresSeen ex_tie (length ?us)"
  have h1: "?us \<noteq> []" by simp
  have h2: "\<forall>i<length ?us. \<not> throws (ex_tie i)" by (simp add: ex_tie_def)
  have c: "scoresSeen ex_tie 3 = [120, 120, 120]"
    by (simp add: scoresSeen_def ex_tie_def upt_rec)
  have nth: "\<And>k. k < length ?us \<Longrightarrow> ?cs ! k = 120"
    by (simp only: scoresSeen_nth) (simp add: ex_tie_def)
  have "set ?cs = {120}" by (simp add: scoresSeen_def ex_tie_def)
  then have pos: "0 < Max (set ?cs)" by simp
  from scan_returns_first_maximum[OF h1 h2, unfolded if_P[OF pos]]
  obtain i where i: "i < length ?us"
    "matchLoop ex_tie 0 ?us None 0 = Inr (Some (?us ! i), ?cs ! i)"
    "\<forall>j<i. ?cs ! j < ?cs ! i"
    by blast
  have "i = 0"
  proof (rule ccontr)
    assume "i \<noteq> 0"
    then have "0 < i" by simp
    with i(3) have "?cs ! 0 < ?cs ! i" by blast
    moreover have "?cs ! 0 = 120" by (rule nth) simp
    moreover have "?cs ! i = 120" by (rule nth) (rule i(1))
    ultimately show False by simp
  qed
  with i(2) have "matchLoop ex_tie 0 ?us None 0 = Inr (Some ex_alice, ?cs ! 0)" by simp
  moreover have "?cs ! 0 = 120" by (rule nth) simp
  ultimately have "matchLoop ex_tie 0 ?us None 0 = Inr (Some ex_alice, 120)" by simp
  with c show ?thesis by (simp add: ex_tie_def)
qed

text \<open>
  Counterexample to C3 as it is written, where the maximum is not positive: with the
  single score 0 the scan returns no identity, although the record reached the maximum.
\<close>

theorem scan_zero_scores_no_identity:
  "[ex_alice] \<noteq> [] \<and> \<not> throws (ex_zero 0) \<and> scoresSeen ex_zero 1 = [0]
   \<and> matchLoop ex_zero 0 [ex_alice] None 0 = Inr (None, 0)
   \<and> matchLoop ex_zero 0 [ex_alice] None 0 \<noteq> Inr (Some ex_alice, 0)"
  by (simp add: ex_zero_def scoresSeen_def)

lemma matchLoop_first_throw:
  "j < length us \<Longrightarrow> ep (k + j) = MatchThrows m \<Longrightarrow> \<forall>i<j. \<not> throws (ep (k + i)) \<Longrightarrow>
   matchLoop ep k us bm bs = Inl m"
proof (induction us arbitrary: k j bm bs)
  case Nil
  then show ?case by simp
next
  case (Cons u rest)
  show ?case
  proof (cases j)
    case 0
    then show ?thesis using Cons.prems(2) by simp
  next
    case (Suc j')
    then have "\<not> throws (ep (k + 0))" using Cons.prems(3) by blast
    then obtain ec sc where r: "ep k = MatchReply ec sc" by (cases "ep k") auto
    have a: "j' < length rest" using Cons.prems(1) Suc by simp
    have b: "ep (Suc k + j') = MatchThrows m" using Cons.prems(2) Suc by simp
    have c: "\<forall>i<j'. \<not> throws (ep (Suc k + i))"
    proof (intro allI impI)
      fix i assume "i < j'"
      then have "Suc i < j" using Suc by simp
      with Cons.prems(3) have "\<not> throws (ep (k + Suc i))" by blast
      then show "\<not> throws (ep (Suc k + i))" by simp
    qed
    show ?thesis using r Cons.IH[OF a b c] by simp
  qed
qed

lemma matchLoop_asScoreZero:
  "0 \<le> bs \<Longrightarrow> matchLoop (asScoreZero \<circ> ep) k us bm bs = matchLoop ep k us bm bs"
proof (induction us arbitrary: k bm bs)
  case Nil
  show ?case by simp
next
  case (Cons u rest)
  show ?case
  proof (cases "ep k")
    case (MatchThrows m)
    then show ?thesis by simp
  next
    case (MatchReply ec sc)
    show ?thesis
    proof (cases "ec = 0")
      case True
      then show ?thesis using MatchReply Cons.IH[of sc] Cons.IH[OF Cons.prems] Cons.prems
        by simp
    next
      case False
      then show ?thesis using MatchReply Cons.IH[OF Cons.prems] Cons.prems by simp
    qed
  qed
qed

lemma verifyFingerprint_matchScore_cong:
  "matchLoop ep 0 (users s) None 0 = matchLoop (matchScore e) 0 (users s) None 0 \<Longrightarrow>
   verifyFingerprint (e\<lparr>matchScore := ep\<rparr>) s = verifyFingerprint e s"
proof -
  assume eq: "matchLoop ep 0 (users s) None 0 = matchLoop (matchScore e) 0 (users s) None 0"
  have c: "captureFingerprint (e\<lparr>matchScore := ep\<rparr>) s = captureFingerprint e s"
    by (simp add: captureFingerprint_def split: capture_reply.splits)
  have l: "\<And>x st. saveVerificationLog (e\<lparr>matchScore := ep\<rparr>) x st = saveVerificationLog e x st"
    by (simp add: saveVerificationLog_def split: item.splits)
  have o: "\<And>bm bs s1. verifyOutcome (e\<lparr>matchScore := ep\<rparr>) bm bs s1 = verifyOutcome e bm bs s1"
    subgoal for bm bs s1
      by (cases bm) (simp_all add: verifySuccess_def verifyFailure_def l)
    done
  show ?thesis
    by (simp add: verifyFingerprint_def c o eq split: prod.splits option.splits sum.splits)
qed

text \<open>
  What the loop does with a comparison that throws and with a non-zero error code. A
  comparison that throws for a record ends the scan at once: the function returns with the
  message of the error as status line and nothing else is done. A reply with a non-zero
  error code counts as a valid comparison of score 0: replacing every such reply so
  leaves the whole verification unchanged.
\<close>

lemma scan_aborts_on_throw_and_skips_error_codes:
  "(j < length (users s) \<and> matchScore e j = MatchThrows m
      \<and> (\<forall>i<j. \<not> throws (matchScore e i))
      \<and> fpCapture e = CaptureReply 0 tpl bmp q n \<and> tpl \<noteq> []
    \<longrightarrow> matchLoop (matchScore e) 0 (users s) None 0 = Inl m
        \<and> verifyFingerprint e s = (fst (captureFingerprint e s))\<lparr>message := MatchingError m\<rparr>)
   \<and> verifyFingerprint (e\<lparr>matchScore := asScoreZero \<circ> matchScore e\<rparr>) s = verifyFingerprint e s"
proof -
  have a: "matchLoop (matchScore e) 0 (users s) None 0 = Inl m
        \<and> verifyFingerprint e s = (fst (captureFingerprint e s))\<lparr>message := MatchingError m\<rparr>"
    if h: "j < length (users s)" "matchScore e j = MatchThrows m"
      "\<forall>i<j. \<not> throws (matchScore e i)" "fpCapture e = CaptureReply 0 tpl bmp q n" "tpl \<noteq> []"
  proof -
    have l: "matchLoop (matchScore e) 0 (users s) None 0 = Inl m"
      using matchLoop_first_throw[of j "users s" "matchScore e" 0 m None 0] h(1-3) by simp
    have ne: "users s \<noteq> []" using h(1) by auto
    show ?thesis using l verifyFingerprint_scan[OF ne h(4,5)] by simp
  qed
  have b: "verifyFingerprint (e\<lparr>matchScore := asScoreZero \<circ> matchScore e\<rparr>) s
         = verifyFingerprint e s"
    by (rule verifyFingerprint_matchScore_cong) (simp add: matchLoop_asScoreZero)
  from a b show ?thesis by blast
qed

lemma scan_aborts_on_throw_and_skips_error_codes_example:
  "1 < length (users ex_state) \<and> ex_broken 1 = MatchThrows [0x45] \<and> \<not> throws (ex_broken 0)
   \<and> fpCapture ex_env = CaptureReply 0 [0x50] [0x49] 80 1
   \<and> matchLoop ex_broken 0 (users ex_state) None 0 = Inl [0x45]
   \<and> message (verifyFingerprint (ex_env\<lparr>matchScore := ex_broken\<rparr>) ex_state)
       = MatchingError [0x45]"
proof -
  let ?e = "ex_env\<lparr>matchScore := ex_broken\<rparr>"
  have h1: "1 < length (users ex_state)" by (simp add: ex_state_def)
  have h2: "matchScore ?e 1 = MatchThrows [0x45]" by (simp add: ex_broken_def)
  have h3: "\<forall>i<1. \<not> throws (matchScore ?e i)" by (simp add: ex_broken_def)
  have h4: "fpCapture ?e = CaptureReply 0 [0x50] [0x49] 80 1" by (simp add: ex_env_def)
  have h5: "[0x50 :: 16 word] \<noteq> []" by simp
  from scan_aborts_on_throw_and_skips_error_codes[of 1 ex_state ?e "[0x45]" "[0x50]" "[0x49]" 80 1]
    h1 h2 h3 h4 h5
  have c: "matchLoop (matchScore ?e) 0 (users ex_state) None 0 = Inl [0x45]
     \<and> verifyFingerprint ?e ex_state
         = (fst (captureFingerprint ?e ex_state))\<lparr>message := MatchingError [0x45]\<rparr>"
    by blast
  then have "message (verifyFingerprint ?e ex_state) = MatchingError [0x45]" by simp
  with c h1 h2 h3 h4 show ?thesis by (simp add: ex_env_def)
qed

text \<open>
  C4. The claim: a transport failure of the comparison endpoint for a single record aborts
  the whole scan at once and reports a transport error, with no match outcome, whereas a
  reply with a non-zero error code counts as score 0 and the scan goes on. The code does
  not abort on every transport failure: a reply whose status is not ok is one, and the
  loop does not test for it. With the statuses 200, 500, 200 and the bodies (0, 40),
  (0, 150), (3, 199) the scan runs over all three records, the verification is accepted
  for the second record with the score 150 of the reply of status 500, and a success
  entry is written to the audit log.
\<close>

theorem non_ok_comparison_status_continues_scan:
  "ex_responses 1 = HttpResponse 500 (BodyJson 0 150)
   \<and> users ex_state = [ex_alice, ex_bob, ex_carol]
   \<and> matchLoop ex_http_replies 0 (users ex_state) None 0 = Inr (Some ex_bob, 150)
   \<and> message (verifyFingerprint (ex_env\<lparr>matchScore := ex_http_replies\<rparr>) ex_state)
       = VerifySuccess (user_name ex_bob) 150
   \<and> ls_verificationLogs
        (storage (verifyFingerprint (ex_env\<lparr>matchScore := ex_http_replies\<rparr>) ex_state))
       = Item [\<lparr>timestamp = isoString ex_env, userName = Some (user_name ex_bob),
                 score = 150, success = True\<rparr>]"
proof -
  let ?e = "ex_env\<lparr>matchScore := ex_http_replies\<rparr>"
  have r: "ex_responses 1 = HttpResponse 500 (BodyJson 0 150)" by (simp add: ex_responses_def)
  have u: "users ex_state = [ex_alice, ex_bob, ex_carol]" by (simp add: ex_state_def)
  have l: "matchLoop ex_http_replies 0 (users ex_state) None 0 = Inr (Some ex_bob, 150)"
    by (simp add: u ex_http_replies_def ex_responses_def)
  have ne: "users ex_state \<noteq> []" by (simp add: u)
  have c: "fpCapture ?e = CaptureReply 0 [0x50] [0x49] 80 1" by (simp add: ex_env_def)
  have t: "[0x50 :: 16 word] \<noteq> []" by simp
  have v: "verifyFingerprint ?e ex_state
      = verifySuccess ?e ex_bob 150 (fst (captureFingerprint ?e ex_state))"
    using verifyFingerprint_scan[OF ne c t] l by simp
  have logs: "ls_verificationLogs (storage (fst (captureFingerprint ?e ex_state))) = Absent"
    using captureFingerprint_frame[of ?e ex_state] by (simp add: ex_state_def ex_storage_def)
  have w: "setItem_ok ?e VerificationLogs" by (simp add: ex_env_def ex_writable_def)
  have m: "message (verifyFingerprint ?e ex_state) = VerifySuccess (user_name ex_bob) 150"
    unfolding v by (simp add: verifySuccess_def)
  have s: "ls_verificationLogs (storage (verifyFingerprint ?e ex_state))
       = Item [\<lparr>timestamp = isoString ex_env, userName = Some (user_name ex_bob),
                 score = 150, success = True\<rparr>]"
    unfolding v using logs w
    by (simp add: verifySuccess_def saveVerificationLog_def pushLog_def)
  from r u l m s show ?thesis by blast
qed

text \<open>
  C10. A verification whose scan is ended by a comparison that throws leaves the stored
  audit log as it was.
\<close>

theorem aborted_scan_writes_no_log:
  assumes "j < length (users s)" and "throws (matchScore e j)"
  shows "ls_verificationLogs (storage (verifyFingerprint e s)) = ls_verificationLogs (storage s)"
proof -
  obtain s1 t where c: "captureFingerprint e s = (s1, t)" by (cases "captureFingerprint e s")
  then have f: "ls_verificationLogs (storage s1) = ls_verificationLogs (storage s)"
    using captureFingerprint_frame[of e s] by simp
  have "\<exists>i<length (users s). throws (matchScore e (0 + i))" using assms by auto
  then obtain m where l: "matchLoop (matchScore e) 0 (users s) None 0 = Inl m"
    using matchLoop_throws[of "matchScore e" 0 "users s" None 0] by blast
  have ne: "users s \<noteq> []" using assms(1) by auto
  show ?thesis
  proof (cases t)
    case None
    then show ?thesis using c f ne by (simp add: verifyFingerprint_def)
  next
    case (Some tpl)
    then show ?thesis using c f ne l by (simp add: verifyFingerprint_def)
  qed
qed

theorem aborted_scan_writes_no_log_witness:
  "1 < length (users ex_state) \<and> throws (ex_broken 1)
   \<and> message (verifyFingerprint (ex_env\<lparr>matchScore := ex_broken\<rparr>) ex_state)
       = MatchingError [0x45]
   \<and> ls_verificationLogs (storage (verifyFingerprint (ex_env\<lparr>matchScore := ex_broken\<rparr>) ex_state))
       = Absent"
proof -
  let ?e = "ex_env\<lparr>matchScore := ex_broken\<rparr>"
  have h1: "1 < length (users ex_state)" by (simp add: ex_state_def)
  have h2: "throws (matchScore ?e 1)" by (simp add: ex_broken_def)
  have m: "message (verifyFingerprint ?e ex_state) = MatchingError [0x45]"
    by (simp add: verifyFingerprint_def captureFingerprint_def ex_env_def ex_state_def
        ex_broken_def Let_def)
  from aborted_scan_writes_no_log[OF h1 h2]
  have "ls_verificationLogs (storage (verifyFingerprint ?e ex_state)) = Absent"
    by (simp add: ex_state_def ex_storage_def)
  with h1 h2 m show ?thesis by simp
qed

section \<open>The audit log\<close>

lemma pushLog_drop:
  "pushLog entry logs = drop (Suc (length logs) - 50) (logs @ [entry])"
  by (simp add: pushLog_def Let_def)

lemma pushLog_length: "length (pushLog entry logs) = min (Suc (length logs)) 50"
  by (simp add: pushLog_drop)

lemma saveVerificationLog_bound:
  "length (logsOf (ls_verificationLogs st)) \<le> 50 \<Longrightarrow>
   length (logsOf (ls_verificationLogs (saveVerificationLog e entry st))) \<le> 50"
  by (cases "ls_verificationLogs st") (simp_all add: saveVerificationLog_def pushLog_length)

text \<open>
  C5. Recording an entry keeps the stored log at 50 entries at most. What is stored is
  the last 50 entries of the old log followed by the new entry, oldest first: a log of 50
  entries loses its first entry, which is then no longer present (when the entries are
  pairwise distinct).
\<close>

theorem record_keeps_most_recent_50:
  "length (pushLog entry logs) = min (Suc (length logs)) 50
   \<and> pushLog entry logs = drop (Suc (length logs) - 50) (logs @ [entry])
   \<and> (length logs = 50 \<longrightarrow>
        pushLog entry logs = tl logs @ [entry]
        \<and> (distinct (logs @ [entry]) \<longrightarrow> hd logs \<notin> set (pushLog entry logs)))
   \<and> (length (logsOf (ls_verificationLogs st)) \<le> 50 \<longrightarrow>
        length (logsOf (ls_verificationLogs (saveVerificationLog e entry st))) \<le> 50)
   \<and> (setItem_ok e VerificationLogs \<and> ls_verificationLogs st = Item logs \<longrightarrow>
        ls_verificationLogs (saveVerificationLog e entry st) = Item (pushLog entry logs))"
proof -
  have full: "pushLog entry logs = tl logs @ [entry]
        \<and> (distinct (logs @ [entry]) \<longrightarrow> hd logs \<notin> set (pushLog entry logs))"
    if len: "length logs = 50"
  proof -
    from len obtain x rest where l: "logs = x # rest" by (cases logs) auto
    have p: "pushLog entry logs = tl logs @ [entry]" using len l by (simp add: pushLog_drop)
    have "hd logs \<notin> set (tl logs @ [entry])" if "distinct (logs @ [entry])"
      using that l by auto
    with p show ?thesis by simp
  qed
  have stored: "ls_verificationLogs (saveVerificationLog e entry st) = Item (pushLog entry logs)"
    if "setItem_ok e VerificationLogs" "ls_verificationLogs st = Item logs"
    using that by (simp add: saveVerificationLog_def)
  show ?thesis
    using pushLog_length[of entry logs] pushLog_drop[of entry logs] full stored
      saveVerificationLog_bound[of st e entry]
    by blast
qed

theorem record_keeps_most_recent_50_witness:
  "length ex_logs = 50 \<and> distinct (ex_logs @ [ex_entry 50]) \<and> hd ex_logs = ex_entry 0
   \<and> length (pushLog (ex_entry 50) ex_logs) = 50
   \<and> pushLog (ex_entry 50) ex_logs = tl ex_logs @ [ex_entry 50]
   \<and> ex_entry 0 \<notin> set (pushLog (ex_entry 50) ex_logs)
   \<and> ls_verificationLogs
        (saveVerificationLog ex_env (ex_entry 50) (ex_storage\<lparr>ls_verificationLogs := Item ex_logs\<rparr>))
       = Item (tl ex_logs @ [ex_entry 50])"
proof -
  let ?st = "ex_storage\<lparr>ls_verificationLogs := Item ex_logs\<rparr>"
  have len: "length ex_logs = 50" by (simp add: ex_logs_def)
  have inj: "inj ex_entry" by (simp add: inj_on_def ex_entry_def)
  have "ex_logs @ [ex_entry 50] = map ex_entry ([0..<50] @ [50])" by (simp add: ex_logs_def)
  moreover have "distinct ([0..<50] @ [50::nat])" by simp
  ultimately have d: "distinct (ex_logs @ [ex_entry 50])"
    using inj by (simp only: distinct_map) (simp add: inj_on_def ex_entry_def)
  have h: "hd ex_logs = ex_entry 0" by (simp add: ex_logs_def hd_map)
  have w: "setItem_ok ex_env VerificationLogs \<and> ls_verificationLogs ?st = Item ex_logs"
    by (simp add: ex_env_def ex_writable_def)
  note t = record_keeps_most_recent_50[of "ex_entry 50" ex_logs ?st ex_env]
  from t len have a: "length (pushLog (ex_entry 50) ex_logs) = 50" by simp
  from t len have b: "pushLog (ex_entry 50) ex_logs = tl ex_logs @ [ex_entry 50]" by blast
  from t len d h have c: "ex_entry 0 \<notin> set (pushLog (ex_entry 50) ex_logs)" by metis
  from t w b have e: "ls_verificationLogs (saveVerificationLog ex_env (ex_entry 50) ?st)
       = Item (tl ex_logs @ [ex_entry 50])" by metis
  from len d h a b c e show ?thesis by blast
qed

section \<open>Enrollment and deletion\<close>

lemma enrollUser_success:
  assumes "trim (name s) \<noteq> []" and "fpCapture e = CaptureReply 0 tpl bmp q n" and "tpl \<noteq> []"
  shows "users (enrollUser e s) =
           users s @ [\<lparr>user_id = dateNow e, user_name = trim (name s), user_template = tpl,
                       user_enrollDate = localeString e\<rparr>]
       \<and> message (enrollUser e s) =
           (if setItem_ok e FingerprintUsers then EnrolledSaved (name s)
            else EnrolledNotSaved (name s))
       \<and> ls_fingerprintUsers (storage (enrollUser e s)) =
           (if setItem_ok e FingerprintUsers then Item (users (enrollUser e s))
            else ls_fingerprintUsers (storage s))"
proof -
  obtain s1 where c: "captureFingerprint e s = (s1, Some tpl)"
    using captureFingerprint_ok[OF assms(2), of s] by (cases "captureFingerprint e s") simp
  then have "ls_fingerprintUsers (storage s1) = ls_fingerprintUsers (storage s)"
    using captureFingerprint_frame[of e s] by simp
  then show ?thesis using c assms(1,3) by (simp add: enrollUser_def Let_def)
qed

text \<open>
  C1, as amended. A successful enrollment (the trimmed name is not empty, the capture
  answers with error code 0 and a non-empty template) appends exactly one record to the
  gallery, whatever the gallery was. Its id is the reading of the clock, so it differs
  from every id of the gallery exactly when no record of the gallery has that reading as
  its id.
\<close>

theorem enroll_appends_record_with_clock_id:
  assumes "trim (name s) \<noteq> []" and "fpCapture e = CaptureReply 0 tpl bmp q n" and "tpl \<noteq> []"
  shows "users (enrollUser e s) =
           users s @ [\<lparr>user_id = dateNow e, user_name = trim (name s), user_template = tpl,
                       user_enrollDate = localeString e\<rparr>]
       \<and> length (users (enrollUser e s)) = length (users s) + 1
       \<and> (user_id (last (users (enrollUser e s))) \<notin> set (map user_id (users s)))
           = (dateNow e \<notin> set (map user_id (users s)))"
  using enrollUser_success[OF assms] by simp

theorem enroll_appends_record_with_clock_id_witness:
  "trim (name ex_state) = [0x44] \<and> fpCapture ex_env = CaptureReply 0 [0x50] [0x49] 80 1
   \<and> users (enrollUser ex_env ex_state) =
        [ex_alice, ex_bob, ex_carol,
         \<lparr>user_id = 4000, user_name = [0x44], user_template = [0x50], user_enrollDate = [0x4C]\<rparr>]
   \<and> user_id (last (users (enrollUser ex_env ex_state))) \<notin> set (map user_id (users ex_state))"
proof -
  have n: "trim (name ex_state) = [0x44]"
    by (simp add: ex_state_def trim_def isWhiteSpace_def)
  then have h1: "trim (name ex_state) \<noteq> []" by simp
  have h2: "fpCapture ex_env = CaptureReply 0 [0x50] [0x49] 80 1" by (simp add: ex_env_def)
  have h3: "[0x50 :: 16 word] \<noteq> []" by simp
  have ids: "dateNow ex_env \<notin> set (map user_id (users ex_state))"
    by (simp add: ex_env_def ex_state_def ex_alice_def ex_bob_def ex_carol_def)
  have v: "users ex_state = [ex_alice, ex_bob, ex_carol]" "dateNow ex_env = 4000"
    "localeString ex_env = [0x4C]"
    by (simp_all add: ex_state_def ex_env_def)
  note t = enroll_appends_record_with_clock_id[OF h1 h2 h3]
  from t have "users (enrollUser ex_env ex_state) =
      users ex_state @ [\<lparr>user_id = dateNow ex_env, user_name = trim (name ex_state),
                         user_template = [0x50], user_enrollDate = localeString ex_env\<rparr>]"
    by blast
  then have a: "users (enrollUser ex_env ex_state) =
        [ex_alice, ex_bob, ex_carol,
         \<lparr>user_id = 4000, user_name = [0x44], user_template = [0x50], user_enrollDate = [0x4C]\<rparr>]"
    unfolding n unfolding v by simp
  from t ids
  have b: "user_id (last (users (enrollUser ex_env ex_state))) \<notin> set (map user_id (users ex_state))"
    by blast
  from n h2 a b show ?thesis by blast
qed

text \<open>
  Counterexample to C1 as it is written, for a gallery that already holds the reading of
  the clock as an id: the enrollment succeeds and the new record has the id of a prior one.
\<close>

theorem enroll_id_collision:
  "trim (name ex_state) = [0x44]
   \<and> fpCapture (ex_env\<lparr>dateNow := 3000\<rparr>) = CaptureReply 0 [0x50] [0x49] 80 1
   \<and> length (users (enrollUser (ex_env\<lparr>dateNow := 3000\<rparr>) ex_state))
       = length (users ex_state) + 1
   \<and> ex_carol \<in> set (users ex_state)
   \<and> user_id (last (users (enrollUser (ex_env\<lparr>dateNow := 3000\<rparr>) ex_state))) = user_id ex_carol"
  by (simp add: enrollUser_def captureFingerprint_def Let_def ex_state_def ex_env_def
      ex_carol_def trim_def isWhiteSpace_def ex_writable_def)

lemma deleteUser_users: "users (deleteUser e i s) = filter (\<lambda>u. user_id u \<noteq> i) (users s)"
  by (simp add: deleteUser_def Let_def)

lemma enrollUser_users_setItem:
  "users (enrollUser (e\<lparr>setItem_ok := ok\<rparr>) s) = users (enrollUser e s)"
proof -
  have c: "fst (captureFingerprint (e\<lparr>setItem_ok := ok\<rparr>) s)\<lparr>storage := storage s\<rparr>
         = fst (captureFingerprint e s)\<lparr>storage := storage s\<rparr>
       \<and> snd (captureFingerprint (e\<lparr>setItem_ok := ok\<rparr>) s) = snd (captureFingerprint e s)"
    by (simp add: captureFingerprint_def Let_def split: capture_reply.splits)
  have u: "users (fst (captureFingerprint (e\<lparr>setItem_ok := ok\<rparr>) s)) = users s"
    "users (fst (captureFingerprint e s)) = users s"
    using captureFingerprint_frame by simp_all
  obtain s1 t where a: "captureFingerprint e s = (s1, t)" by (cases "captureFingerprint e s")
  obtain s2 t2 where b: "captureFingerprint (e\<lparr>setItem_ok := ok\<rparr>) s = (s2, t2)"
    by (cases "captureFingerprint (e\<lparr>setItem_ok := ok\<rparr>) s")
  from a b c u have "t2 = t" "users s1 = users s" "users s2 = users s" by simp_all
  then show ?thesis using a b
    by (simp add: enrollUser_def Let_def split: option.splits)
qed

text \<open>
  C8. When the write of the gallery to the storage fails, enrollment and deletion still
  change the gallery in memory: the record is appended, respectively the records with the
  id are removed, the storage keeps its gallery item, and the status line reports the
  failure. The gallery in memory never depends on which writes succeed, and the save
  that follows a change of the gallery leaves it as it is.
\<close>

theorem storage_failure_keeps_mutation:
  "(\<not> setItem_ok e FingerprintUsers \<longrightarrow>
      users (deleteUser e i s) = filter (\<lambda>u. user_id u \<noteq> i) (users s)
      \<and> message (deleteUser e i s) = DeletedNotSaved
      \<and> storage (deleteUser e i s) = storage s)
   \<and> (\<not> setItem_ok e FingerprintUsers \<and> trim (name s) \<noteq> []
        \<and> fpCapture e = CaptureReply 0 tpl bmp q n \<and> tpl \<noteq> [] \<longrightarrow>
      users (enrollUser e s) =
          users s @ [\<lparr>user_id = dateNow e, user_name = trim (name s), user_template = tpl,
                      user_enrollDate = localeString e\<rparr>]
      \<and> message (enrollUser e s) = EnrolledNotSaved (name s)
      \<and> ls_fingerprintUsers (storage (enrollUser e s)) = ls_fingerprintUsers (storage s))
   \<and> users (enrollUser (e\<lparr>setItem_ok := ok\<rparr>) s) = users (enrollUser e s)
   \<and> users (deleteUser (e\<lparr>setItem_ok := ok\<rparr>) i s) = users (deleteUser e i s)
   \<and> users (usersEffect e s) = users s"
proof -
  have d: "users (deleteUser e i s) = filter (\<lambda>u. user_id u \<noteq> i) (users s)
      \<and> message (deleteUser e i s) = DeletedNotSaved
      \<and> storage (deleteUser e i s) = storage s"
    if "\<not> setItem_ok e FingerprintUsers"
    using that by (simp add: deleteUser_def Let_def)
  have en: "users (enrollUser e s) =
          users s @ [\<lparr>user_id = dateNow e, user_name = trim (name s), user_template = tpl,
                      user_enrollDate = localeString e\<rparr>]
      \<and> message (enrollUser e s) = EnrolledNotSaved (name s)
      \<and> ls_fingerprintUsers (storage (enrollUser e s)) = ls_fingerprintUsers (storage s)"
    if "\<not> setItem_ok e FingerprintUsers" "trim (name s) \<noteq> []"
      "fpCapture e = CaptureReply 0 tpl bmp q n" "tpl \<noteq> []"
    using enrollUser_success[OF that(2-4)] that(1) by simp
  have ef: "users (usersEffect e s) = users s"
    by (simp add: usersEffect_def saveUsersToStorage_def)
  show ?thesis
    using d en ef enrollUser_users_setItem[where e = e and ok = ok and s = s]
    by (simp add: deleteUser_users)
qed

theorem storage_failure_keeps_mutation_witness:
  "\<not> setItem_ok (ex_env\<lparr>setItem_ok := ex_full\<rparr>) FingerprintUsers
   \<and> trim (name ex_state) = [0x44]
   \<and> users (deleteUser (ex_env\<lparr>setItem_ok := ex_full\<rparr>) 2000 ex_state) = [ex_alice, ex_carol]
   \<and> message (deleteUser (ex_env\<lparr>setItem_ok := ex_full\<rparr>) 2000 ex_state) = DeletedNotSaved
   \<and> storage (deleteUser (ex_env\<lparr>setItem_ok := ex_full\<rparr>) 2000 ex_state) = ex_storage
   \<and> users (enrollUser (ex_env\<lparr>setItem_ok := ex_full\<rparr>) ex_state) =
        [ex_alice, ex_bob, ex_carol,
         \<lparr>user_id = 4000, user_name = [0x44], user_template = [0x50], user_enrollDate = [0x4C]\<rparr>]
   \<and> message (enrollUser (ex_env\<lparr>setItem_ok := ex_full\<rparr>) ex_state)
       = EnrolledNotSaved [0x20, 0x44, 0x20]
   \<and> ls_fingerprintUsers (storage (enrollUser (ex_env\<lparr>setItem_ok := ex_full\<rparr>) ex_state))
       = Absent"
proof -
  let ?e = "ex_env\<lparr>setItem_ok := ex_full\<rparr>"
  have h0: "\<not> setItem_ok ?e FingerprintUsers" by (simp add: ex_full_def)
  have n: "trim (name ex_state) = [0x44]"
    by (simp add: ex_state_def trim_def isWhiteSpace_def)
  have h2: "fpCapture ?e = CaptureReply 0 [0x50] [0x49] 80 1" by (simp add: ex_env_def)
  have v: "users ex_state = [ex_alice, ex_bob, ex_carol]" "dateNow ?e = 4000"
    "localeString ?e = [0x4C]" "name ex_state = [0x20, 0x44, 0x20]"
    "storage ex_state = ex_storage" "ls_fingerprintUsers ex_storage = Absent"
    by (simp_all add: ex_state_def ex_env_def ex_storage_def)
  have f: "filter (\<lambda>u. user_id u \<noteq> 2000) [ex_alice, ex_bob, ex_carol] = [ex_alice, ex_carol]"
    by (simp add: ex_alice_def ex_bob_def ex_carol_def)
  have h1: "trim (name ex_state) \<noteq> []" using n by simp
  have h3: "[0x50 :: 16 word] \<noteq> []" by simp
  note t = storage_failure_keeps_mutation[where e = ?e and i = 2000 and s = ex_state
      and tpl = "[0x50]" and bmp = "[0x49]" and q = 80 and n = 1 and ok = ex_full]
  from t h0 have "users (deleteUser ?e 2000 ex_state)
        = filter (\<lambda>u. user_id u \<noteq> 2000) (users ex_state)
      \<and> message (deleteUser ?e 2000 ex_state) = DeletedNotSaved
      \<and> storage (deleteUser ?e 2000 ex_state) = storage ex_state"
    by blast
  then have a: "users (deleteUser ?e 2000 ex_state) = [ex_alice, ex_carol]
      \<and> message (deleteUser ?e 2000 ex_state) = DeletedNotSaved
      \<and> storage (deleteUser ?e 2000 ex_state) = ex_storage"
    unfolding v f .
  from t h0 h1 h2 h3 have "users (enrollUser ?e ex_state) =
        users ex_state @ [\<lparr>user_id = dateNow ?e, user_name = trim (name ex_state),
                           user_template = [0x50], user_enrollDate = localeString ?e\<rparr>]
      \<and> message (enrollUser ?e ex_state) = EnrolledNotSaved (name ex_state)
      \<and> ls_fingerprintUsers (storage (enrollUser ?e ex_state))
          = ls_fingerprintUsers (storage ex_state)"
    by blast
  then have b: "users (enrollUser ?e ex_state) =
        [ex_alice, ex_bob, ex_carol,
         \<lparr>user_id = 4000, user_name = [0x44], user_template = [0x50], user_enrollDate = [0x4C]\<rparr>]
      \<and> message (enrollUser ?e ex_state) = EnrolledNotSaved [0x20, 0x44, 0x20]
      \<and> ls_fingerprintUsers (storage (enrollUser ?e ex_state)) = Absent"
    unfolding n unfolding v by simp
  from h0 n a b show ?thesis by blast
qed

section \<open>Export and import: the claims\<close>

lemma importData_array:
  "users (importData e (Some (DataObject (UsersArray us) c)) s) = us"
  by (simp add: importData_def Let_def split: option.splits)

text \<open>
  C6. Importing the document that was exported from a state gives a gallery equal to the
  exported one, of the same length, whatever the importing state was and whether or not
  the writes to the storage succeed.
\<close>

theorem export_import_roundtrip:
  "users (importData e' (Some (parseStringified (snd (exportData e s)))) s') = users s
   \<and> length (users (importData e' (Some (parseStringified (snd (exportData e s)))) s'))
       = length (users s)"
  by (simp add: exportData_def parseStringified_def importData_array)

theorem export_import_roundtrip_witness:
  "users (importData ex_env (Some (parseStringified (snd (exportData ex_env ex_state))))
            (ex_state\<lparr>users := []\<rparr>)) = [ex_alice, ex_bob, ex_carol]
   \<and> users (importData ex_env
            (Some (parseStringified (snd (exportData ex_env (ex_state\<lparr>users := []\<rparr>)))))
            ex_state) = []"
proof -
  have v: "users ex_state = [ex_alice, ex_bob, ex_carol]" by (simp add: ex_state_def)
  from export_import_roundtrip[of ex_env ex_env ex_state "ex_state\<lparr>users := []\<rparr>"]
  have a: "users (importData ex_env (Some (parseStringified (snd (exportData ex_env ex_state))))
            (ex_state\<lparr>users := []\<rparr>)) = [ex_alice, ex_bob, ex_carol]"
    unfolding v by blast
  from export_import_roundtrip[of ex_env ex_env "ex_state\<lparr>users := []\<rparr>" ex_state]
  have b: "users (importData ex_env
            (Some (parseStringified (snd (exportData ex_env (ex_state\<lparr>users := []\<rparr>)))))
            ex_state) = []"
    by simp
  from a b show ?thesis by blast
qed

text \<open>
  C7. A document without a \<open>users\<close> field that is a sequence is rejected: the import
  changes nothing but the status line, which reports the invalid format.
\<close>

theorem import_without_users_array_rejected:
  assumes "\<not> hasUsersArray d"
  shows "(importData e (Some d) s = s\<lparr>message := FormatInvalid\<rparr>
          \<or> importData e (Some d) s = s\<lparr>message := ImportFailed\<rparr>)
       \<and> users (importData e (Some d) s) = users s
       \<and> lastCaptured (importData e (Some d) s) = lastCaptured s
       \<and> storage (importData e (Some d) s) = storage s"
proof (cases d)
  case DataNull
  then show ?thesis by (simp add: importData_def)
next
  case DataNoProperties
  then show ?thesis by (simp add: importData_def)
next
  case (DataObject v c)
  with assms have "\<not> isArray v" by simp
  then show ?thesis using DataObject by (simp add: importData_def)
qed

theorem import_without_users_array_rejected_witness:
  "\<not> hasUsersArray (DataObject UsersUndefined None)
   \<and> importData ex_env (Some (DataObject UsersUndefined None)) ex_state
       = ex_state\<lparr>message := FormatInvalid\<rparr>
   \<and> \<not> hasUsersArray (DataObject (UsersStr [0x41]) None)
   \<and> users (importData ex_env (Some (DataObject (UsersStr [0x41]) None)) ex_state)
       = [ex_alice, ex_bob, ex_carol]
   \<and> storage (importData ex_env (Some (DataObject (UsersStr [0x41]) None)) ex_state)
       = ex_storage"
proof -
  have h1: "\<not> hasUsersArray (DataObject UsersUndefined None)" by simp
  have h2: "\<not> hasUsersArray (DataObject (UsersStr [0x41]) None)" by simp
  have v: "users ex_state = [ex_alice, ex_bob, ex_carol]" "storage ex_state = ex_storage"
    by (simp_all add: ex_state_def)
  have m: "message (importData ex_env (Some (DataObject UsersUndefined None)) ex_state)
      = FormatInvalid"
    by (simp add: importData_def)
  from import_without_users_array_rejected[OF h1, of ex_env ex_state]
  have "importData ex_env (Some (DataObject UsersUndefined None)) ex_state
          = ex_state\<lparr>message := FormatInvalid\<rparr>
        \<or> importData ex_env (Some (DataObject UsersUndefined None)) ex_state
          = ex_state\<lparr>message := ImportFailed\<rparr>"
    by blast
  then have a: "importData ex_env (Some (DataObject UsersUndefined None)) ex_state
          = ex_state\<lparr>message := FormatInvalid\<rparr>"
  proof
    assume "importData ex_env (Some (DataObject UsersUndefined None)) ex_state
          = ex_state\<lparr>message := FormatInvalid\<rparr>"
    then show ?thesis .
  next
    assume "importData ex_env (Some (DataObject UsersUndefined None)) ex_state
          = ex_state\<lparr>message := ImportFailed\<rparr>"
    then have "message (importData ex_env (Some (DataObject UsersUndefined None)) ex_state)
          = ImportFailed" by simp
    with m show ?thesis by simp
  qed
  from import_without_users_array_rejected[OF h2, of ex_env ex_state]
  have b: "users (importData ex_env (Some (DataObject (UsersStr [0x41]) None)) ex_state)
       = [ex_alice, ex_bob, ex_carol]
     \<and> storage (importData ex_env (Some (DataObject (UsersStr [0x41]) None)) ex_state)
       = ex_storage"
    unfolding v by blast
  from h1 h2 a b show ?thesis by blast
qed

end
